theory Spec2Isabelle
  imports Main "HOL-Library.Char_ord" "HOL-Library.List_Lexorder"
begin

section \<open>The notification document\<close>

text \<open>
  The notification schema of the models file: the string enumerations \<open>status\<close> and
  \<open>priority\<close> are datatypes, the four fixed keys of \<open>channels\<close> and
  \<open>deliveryStatus\<close> are the datatype \<open>channel\<close>, dates are milliseconds (\<open>nat\<close>),
  the two counters are JavaScript numbers that hold integers (\<open>int\<close>; nothing in the
  schema bounds them, and \<open>js_increment\<close> below is the addition of doubles).
\<close>

datatype channel = Telegram | Email | Push | InApp

datatype status = Pending | Sending | Sent | Failed | Cancelled

datatype priority = Low | Normal | High | Urgent

text \<open>The value that the store holds for a priority: the schema's type is \<open>String\<close>.\<close>

fun priority_str :: "priority \<Rightarrow> string" where
  "priority_str Low = ''low''"
| "priority_str Normal = ''normal''"
| "priority_str High = ''high''"
| "priority_str Urgent = ''urgent''"

text \<open>
  One entry of \<open>deliveryStatus\<close>. The schema declares \<open>error\<close> for telegram, email and
  push and \<open>readAt\<close> for inApp only; the record keeps all four fields for every channel.
\<close>

record delivery =
  sent :: bool
  sentAt :: "nat option"
  error :: "string option"
  readAt :: "nat option"

text \<open>
  The document. \<open>nid\<close> is \<open>_id\<close>; \<open>notifSentAt\<close> and \<open>notifReadAt\<close> are the
  top-level \<open>sentAt\<close> and \<open>readAt\<close> (renamed: the per-channel entry has fields of the
  same names). Recipient, type, title, content, data and metadata never drive the logic
  and are left out.
\<close>

record notification =
  nid :: nat
  channels :: "channel \<Rightarrow> bool"
  deliveryStatus :: "channel \<Rightarrow> delivery"
  priority :: priority
  status :: status
  scheduledAt :: nat
  notifSentAt :: "nat option"
  notifReadAt :: "nat option"
  retryCount :: int
  maxRetries :: int

text \<open>\<open>Object.keys\<close> of \<open>channels\<close> and of \<open>deliveryStatus\<close>, in schema order.\<close>

definition channel_keys :: "channel list" where
  "channel_keys = [Telegram, Email, Push, InApp]"

text \<open>The schema defaults of a new entry of \<open>deliveryStatus\<close>.\<close>

definition delivery_default :: delivery where
  "delivery_default = \<lparr>sent = False, sentAt = None, error = None, readAt = None\<rparr>"

text \<open>
  \<open>new Notification(data)\<close> with the schema defaults for everything but the fields a
  caller chooses: the channels, the priority, the schedule time and the retry budget.
  The callers in the service set the channels and the priority only.
\<close>

definition create :: "nat \<Rightarrow> (channel \<Rightarrow> bool) \<Rightarrow> priority \<Rightarrow> nat \<Rightarrow> int \<Rightarrow> notification" where
  "create i chs p at mx =
     \<lparr>nid = i, channels = chs, deliveryStatus = (\<lambda>_. delivery_default), priority = p,
      status = Pending, scheduledAt = at, notifSentAt = None, notifReadAt = None,
      retryCount = 0, maxRetries = mx\<rparr>"

section \<open>The methods of the model\<close>

text \<open>
  Each method mutates the document and returns \<open>this.save()\<close>. The model returns the
  mutated document; what \<open>save\<close> answers is an input of the caller's world (below).
  The guard \<open>if (this.deliveryStatus[channel])\<close> is true for each of the four keys.
\<close>

definition allChannels :: "notification \<Rightarrow> channel list" where
  "allChannels n = filter (channels n) channel_keys"

definition sentChannels :: "notification \<Rightarrow> channel list" where
  "sentChannels n = filter (\<lambda>key. sent (deliveryStatus n key)) channel_keys"

definition markAsSent :: "channel \<Rightarrow> nat \<Rightarrow> notification \<Rightarrow> notification" where
  "markAsSent ch now n =
     (let n1 = n\<lparr>deliveryStatus :=
                  (deliveryStatus n)(ch := (deliveryStatus n ch)\<lparr>sent := True, sentAt := Some now\<rparr>)\<rparr>
      in if length (allChannels n1) = length (sentChannels n1)
         then n1\<lparr>status := Sent, notifSentAt := Some now\<rparr>
         else n1)"

text \<open>
  \<open>x += 1\<close> on a JavaScript number that holds an integer. The number is a double: up to
  \<open>2 ^ 53\<close> in absolute value every integer is one, and the sum is exact. From
  \<open>2 ^ 53\<close> on only the even integers are doubles, so that \<open>x + 1\<close> lies half way
  between two of them and is rounded to the one with the even significand; from
  \<open>2 ^ 54\<close> on the doubles are four or more apart and the sum is rounded back to \<open>x\<close>.
\<close>

definition js_increment :: "int \<Rightarrow> int" where
  "js_increment x =
     (if - (2 ^ 53) \<le> x \<and> x < 2 ^ 53 then x + 1
      else if abs x < 2 ^ 54 then (if even (x div 2) then x else x + 2)
      else x)"

definition markAsFailed :: "channel \<Rightarrow> string \<Rightarrow> notification \<Rightarrow> notification" where
  "markAsFailed ch err n =
     (let n1 = n\<lparr>deliveryStatus := (deliveryStatus n)(ch := (deliveryStatus n ch)\<lparr>error := Some err\<rparr>)\<rparr>;
          n2 = n1\<lparr>retryCount := js_increment (retryCount n1)\<rparr>
      in if retryCount n2 \<ge> maxRetries n2
         then n2\<lparr>status := Failed\<rparr>
         else n2\<lparr>status := Pending\<rparr>)"

definition markAsRead :: "nat \<Rightarrow> notification \<Rightarrow> notification" where
  "markAsRead now n =
     n\<lparr>notifReadAt := Some now,
       deliveryStatus := (deliveryStatus n)(InApp := (deliveryStatus n InApp)\<lparr>readAt := Some now\<rparr>)\<rparr>"

definition retry :: "nat \<Rightarrow> notification \<Rightarrow> notification" where
  "retry now n = n\<lparr>status := Pending, scheduledAt := now\<rparr>"

section \<open>The work queue\<close>

text \<open>
  \<open>findPending\<close> is a query \<open>{status: 'pending', scheduledAt: {$lte: now}}\<close> sorted by
  \<open>{priority: -1, scheduledAt: 1}\<close>. The store compares the stored values: priorities
  are strings, compared byte by byte. \<open>sorts_before a b\<close> says that the sort
  specification allows \<open>a\<close> in front of \<open>b\<close>. The order among documents that are equal
  on both keys is the store's; the model inserts stably.
\<close>

definition is_due :: "nat \<Rightarrow> notification \<Rightarrow> bool" where
  "is_due now n = (status n = Pending \<and> scheduledAt n \<le> now)"

definition sorts_before :: "notification \<Rightarrow> notification \<Rightarrow> bool" where
  "sorts_before a b =
     (priority_str (priority b) < priority_str (priority a) \<or>
      (priority_str (priority a) = priority_str (priority b) \<and> scheduledAt a \<le> scheduledAt b))"

fun insert_sorted :: "notification \<Rightarrow> notification list \<Rightarrow> notification list" where
  "insert_sorted a [] = [a]"
| "insert_sorted a (b # bs) =
     (if sorts_before a b then a # b # bs else b # insert_sorted a bs)"

fun sort_query :: "notification list \<Rightarrow> notification list" where
  "sort_query [] = []"
| "sort_query (a # as) = insert_sorted a (sort_query as)"

definition findPending :: "nat \<Rightarrow> notification list \<Rightarrow> notification list" where
  "findPending now store = sort_query (filter (is_due now) store)"

section \<open>The world of one dispatch round\<close>

text \<open>
  Everything a round asks of its collaborators is an input: the clock, what each
  \<open>save\<close> answers, what the chat-bot API, the user lookup and the mail transport
  answer. \<open>None\<close> is a promise that resolves, \<open>Some m\<close> one that rejects with the
  message \<open>m\<close>. \<open>settleOrder\<close> is the order in which the senders' promises settle.
\<close>

datatype lookup = LookupError string | NoUser | UserFound bool

record world =
  clock :: nat
  claimSave :: "string option"
  failedSave :: "string option"
  sendMessage :: "string option"
  findById :: lookup
  sendMail :: "string option"
  sentSave :: "channel \<Rightarrow> string option"
  settleOrder :: "channel list"

section \<open>The channel senders\<close>

text \<open>
  Each sender is \<open>try { deliver; await markAsSent(c); return true } catch (error)
  { await markAsFailed(c, error.message); return false }\<close>. The \<open>save\<close> that
  \<open>markAsSent\<close> returns is awaited inside the \<open>try\<close>: when it rejects, the channel
  is already marked sent and the \<open>catch\<close> branch records the failure as well. The
  email sender returns \<open>false\<close> before it delivers when the user is missing or
  has opted out (\<open>UserFound b\<close> carries \<open>user.notifications.email\<close>).
  \<open>recordSent\<close> is the tail that the four senders share: \<open>await markAsSent(c)\<close>
  inside the \<open>try\<close>, and the \<open>catch\<close> branch for an error of that \<open>save\<close>.

  The senders of a round run concurrently, and each touches the document only through
  \<open>markAsSent\<close> and \<open>markAsFailed\<close>. The model applies the effect of a sender in
  one piece, when its promise settles, and takes the order of settling from the world.
\<close>

definition recordSent :: "channel \<Rightarrow> world \<Rightarrow> notification \<Rightarrow> notification \<times> bool" where
  "recordSent ch w n =
     (let n1 = markAsSent ch (clock w) n
      in case sentSave w ch of
           None \<Rightarrow> (n1, True)
         | Some msg \<Rightarrow> (markAsFailed ch msg n1, False))"

definition sendTelegramNotification :: "world \<Rightarrow> notification \<Rightarrow> notification \<times> bool" where
  "sendTelegramNotification w n =
     (case sendMessage w of
        Some msg \<Rightarrow> (markAsFailed Telegram msg n, False)
      | None \<Rightarrow> recordSent Telegram w n)"

definition sendEmailNotification :: "world \<Rightarrow> notification \<Rightarrow> notification \<times> bool" where
  "sendEmailNotification w n =
     (case findById w of
        LookupError msg \<Rightarrow> (markAsFailed Email msg n, False)
      | NoUser \<Rightarrow> (n, False)
      | UserFound optIn \<Rightarrow>
          if \<not> optIn then (n, False)
          else (case sendMail w of
                  Some msg \<Rightarrow> (markAsFailed Email msg n, False)
                | None \<Rightarrow> recordSent Email w n))"

definition sendPushNotification :: "world \<Rightarrow> notification \<Rightarrow> notification \<times> bool" where
  "sendPushNotification w n = recordSent Push w n"

definition sendInAppNotification :: "world \<Rightarrow> notification \<Rightarrow> notification \<times> bool" where
  "sendInAppNotification w n = recordSent InApp w n"

fun sender :: "channel \<Rightarrow> world \<Rightarrow> notification \<Rightarrow> notification \<times> bool" where
  "sender Telegram = sendTelegramNotification"
| "sender Email = sendEmailNotification"
| "sender Push = sendPushNotification"
| "sender InApp = sendInAppNotification"

section \<open>The dispatcher\<close>

text \<open>
  \<open>sendNotification\<close> sets the status to sending and saves; then it calls the sender of
  each enabled channel, in the order telegram, email, push, inApp (\<open>promises\<close>), and
  waits until all of them have settled (\<open>Promise.allSettled\<close>, which never rejects); then
  it returns \<open>true\<close>. Only the first \<open>save\<close> can reach its \<open>catch\<close>, which sets the
  status to failed and saves again; an error of that second \<open>save\<close> leaves the function.

  A round is what the caller can observe: the senders called, the document afterwards,
  and the value returned (\<open>Inr\<close>) or the error thrown (\<open>Inl\<close>).
\<close>

record round =
  invoked :: "channel list"
  doc :: notification
  returned :: "string + bool"

definition promises :: "notification \<Rightarrow> channel list" where
  "promises n =
     (if channels n Telegram then [Telegram] else []) @
     (if channels n Email then [Email] else []) @
     (if channels n Push then [Push] else []) @
     (if channels n InApp then [InApp] else [])"

text \<open>
  The order in which the promises of a round settle: the world's order, restricted to
  the promises made, each once; a promise the world does not list settles last.
\<close>

definition settle :: "channel list \<Rightarrow> channel list \<Rightarrow> channel list" where
  "settle order ps =
     filter (\<lambda>c. c \<in> set ps) (remdups order) @ filter (\<lambda>c. c \<notin> set order) ps"

fun run_senders :: "world \<Rightarrow> channel list \<Rightarrow> notification \<Rightarrow> notification" where
  "run_senders w [] n = n"
| "run_senders w (c # cs) n = run_senders w cs (fst (sender c w n))"

definition sendNotification :: "world \<Rightarrow> notification \<Rightarrow> round" where
  "sendNotification w n =
     (let n1 = n\<lparr>status := Sending\<rparr>
      in case claimSave w of
           Some msg \<Rightarrow>
             (let n2 = n1\<lparr>status := Failed\<rparr>
              in case failedSave w of
                   Some msg2 \<Rightarrow> \<lparr>invoked = [], doc = n2, returned = Inl msg2\<rparr>
                 | None \<Rightarrow> \<lparr>invoked = [], doc = n2, returned = Inr False\<rparr>)
         | None \<Rightarrow>
             (let ps = promises n1
              in \<lparr>invoked = ps,
                  doc = run_senders w (settle (settleOrder w) ps) n1,
                  returned = Inr True\<rparr>))"

section \<open>The sweep\<close>

text \<open>
  \<open>processPendingNotifications\<close> is one \<open>try\<close> around the query and the loop: an error
  of the query, or an error that leaves \<open>sendNotification\<close>, ends the loop and is logged.
  \<open>query\<close> is what the store answers to the query, \<open>worldOf\<close> gives the world in
  which the notification with a given id is dispatched. The result is the rounds run.
  The pause of 100 ms after each round changes no document and is left out.
\<close>

fun dispatch_all :: "(nat \<Rightarrow> world) \<Rightarrow> notification list \<Rightarrow> round list" where
  "dispatch_all worldOf [] = []"
| "dispatch_all worldOf (n # ns) =
     (let r = sendNotification (worldOf (nid n)) n
      in case returned r of
           Inl e \<Rightarrow> [r]
         | Inr b \<Rightarrow> r # dispatch_all worldOf ns)"

definition processPendingNotifications ::
  "string option \<Rightarrow> (nat \<Rightarrow> world) \<Rightarrow> nat \<Rightarrow> notification list \<Rightarrow> round list" where
  "processPendingNotifications query worldOf now store =
     (case query of
        Some e \<Rightarrow> []
      | None \<Rightarrow> dispatch_all worldOf (findPending now store))"

section \<open>The documents a store can hold\<close>

text \<open>
  Every assignment to a field of a document in the source is one of these steps: the
  two status assignments of the dispatcher, \<open>markAsSent\<close> and \<open>markAsFailed\<close> called by
  the sender of an enabled channel, \<open>retry\<close> and \<open>markAsRead\<close>. The steps are finer
  than the rounds: what holds along every sequence of steps holds for the senders of a
  round in whatever way they interleave.
\<close>

inductive step :: "notification \<Rightarrow> notification \<Rightarrow> bool" where
  claimed: "step n (n\<lparr>status := Sending\<rparr>)"
| claim_failed: "step n (n\<lparr>status := Failed\<rparr>)"
| channel_sent: "channels n c \<Longrightarrow> step n (markAsSent c now n)"
| channel_failed: "channels n c \<Longrightarrow> step n (markAsFailed c e n)"
| retried: "step n (retry now n)"
| was_read: "step n (markAsRead now n)"

section \<open>Predicates of the specification\<close>

text \<open>
  The two directions of the delivery invariant, over the four channels: every channel
  marked sent is enabled, and every enabled channel is marked sent.
\<close>

definition sent_are_enabled :: "notification \<Rightarrow> bool" where
  "sent_are_enabled n =
     list_all (\<lambda>c. if sent (deliveryStatus n c) then channels n c else True) channel_keys"

definition enabled_are_sent :: "notification \<Rightarrow> bool" where
  "enabled_are_sent n =
     list_all (\<lambda>c. if channels n c then sent (deliveryStatus n c) else True) channel_keys"

text \<open>
  \<open>channel_fails w c\<close>: in the world \<open>w\<close> the sender of \<open>c\<close> reaches its \<open>catch\<close>
  branch, which calls \<open>markAsFailed\<close>. \<open>cut_short w\<close>: the email sender returns before
  it delivers. \<open>throws w\<close>: an error leaves \<open>sendNotification\<close>.
\<close>

definition save_fails :: "world \<Rightarrow> channel \<Rightarrow> bool" where
  "save_fails w c = (case sentSave w c of None \<Rightarrow> False | Some m \<Rightarrow> True)"

fun channel_fails :: "world \<Rightarrow> channel \<Rightarrow> bool" where
  "channel_fails w Telegram =
     (case sendMessage w of Some m \<Rightarrow> True | None \<Rightarrow> save_fails w Telegram)"
| "channel_fails w Email =
     (case findById w of
        LookupError m \<Rightarrow> True
      | NoUser \<Rightarrow> False
      | UserFound optIn \<Rightarrow>
          if optIn then (case sendMail w of Some m \<Rightarrow> True | None \<Rightarrow> save_fails w Email)
          else False)"
| "channel_fails w Push = save_fails w Push"
| "channel_fails w InApp = save_fails w InApp"

text \<open>
  \<open>send_failed w n c\<close>: the sender of \<open>c\<close>, called on \<open>n\<close> in the world \<open>w\<close>, does
  not return \<open>true\<close>. This is the sender's own verdict; it holds of every sender that
  reaches its \<open>catch\<close> branch and of the email sender that is cut short.
\<close>

definition send_failed :: "world \<Rightarrow> notification \<Rightarrow> channel \<Rightarrow> bool" where
  "send_failed w n c = (\<not> snd (sender c w n))"

definition cut_short :: "world \<Rightarrow> bool" where
  "cut_short w =
     (case findById w of LookupError m \<Rightarrow> False | NoUser \<Rightarrow> True | UserFound optIn \<Rightarrow> \<not> optIn)"

definition throws :: "world \<Rightarrow> bool" where
  "throws w =
     (case claimSave w of
        None \<Rightarrow> False
      | Some e \<Rightarrow> (case failedSave w of None \<Rightarrow> False | Some e2 \<Rightarrow> True))"

text \<open>
  \<open>never_throws worldOf ns\<close>: no dispatch of a notification of \<open>ns\<close> throws.
  \<open>handed\<close>: the ids of the notifications that a sweep handed to the dispatcher, in
  order.
\<close>

definition never_throws :: "(nat \<Rightarrow> world) \<Rightarrow> notification list \<Rightarrow> bool" where
  "never_throws worldOf ns = list_all (\<lambda>n. \<not> throws (worldOf (nid n))) ns"

definition handed :: "round list \<Rightarrow> nat list" where
  "handed rs = map (\<lambda>r. nid (doc r)) rs"

section \<open>Scenarios\<close>

text \<open>
  Worlds and documents for the concrete runs below. In \<open>healthy t\<close> every collaborator
  answers, at time \<open>t\<close>; the other worlds differ from it in what their names say.
\<close>

definition healthy :: "nat \<Rightarrow> world" where
  "healthy t =
     \<lparr>clock = t, claimSave = None, failedSave = None, sendMessage = None,
      findById = UserFound True, sendMail = None, sentSave = (\<lambda>_. None), settleOrder = []\<rparr>"

definition mail_down :: "nat \<Rightarrow> world" where
  "mail_down t = (healthy t)\<lparr>sendMail := Some ''connection refused''\<rparr>"

definition bot_down_mail_first :: "nat \<Rightarrow> world" where
  "bot_down_mail_first t =
     (healthy t)\<lparr>sendMessage := Some ''timeout'', settleOrder := [Email, Telegram]\<rparr>"

definition all_down :: "nat \<Rightarrow> world" where
  "all_down t = (healthy t)\<lparr>sendMessage := Some ''timeout'', sendMail := Some ''connection refused''\<rparr>"

definition no_user :: "nat \<Rightarrow> world" where
  "no_user t = (healthy t)\<lparr>findById := NoUser\<rparr>"

definition store_down :: "nat \<Rightarrow> world" where
  "store_down t =
     (healthy t)\<lparr>claimSave := Some ''store unreachable'', failedSave := Some ''store unreachable''\<rparr>"

definition store_flaky :: "nat \<Rightarrow> world" where
  "store_flaky t = (healthy t)\<lparr>claimSave := Some ''store unreachable''\<rparr>"

definition first_store_down :: "nat \<Rightarrow> world" where
  "first_store_down i = (if i = 1 then store_down 5 else healthy 5)"

definition first_store_flaky :: "nat \<Rightarrow> world" where
  "first_store_flaky i = (if i = 1 then store_flaky 5 else all_down 5)"

definition only :: "channel list \<Rightarrow> channel \<Rightarrow> bool" where
  "only cs c = (c \<in> set cs)"

definition chat_and_mail :: notification where
  "chat_and_mail = create 7 (only [Telegram, Email]) Normal 0 3"

definition after_mail_failure :: notification where
  "after_mail_failure = doc (sendNotification (mail_down 1) chat_and_mail)"

definition one_retry :: notification where
  "one_retry = create 9 (only [Telegram, Email]) Normal 0 1"

definition push_only :: notification where
  "push_only = create 8 (only [Push]) Normal 0 3"

definition after_push :: notification where
  "after_push = doc (sendNotification (healthy 1) push_only)"

definition first_in_queue :: notification where
  "first_in_queue = create 1 (only [Telegram]) Urgent 0 3"

definition second_in_queue :: notification where
  "second_in_queue = create 2 (only [Telegram]) Low 0 3"

section \<open>Facts about the model\<close>

lemmas scenario_defs =
  healthy_def mail_down_def bot_down_mail_first_def all_down_def no_user_def store_down_def
  store_flaky_def first_store_down_def first_store_flaky_def only_def chat_and_mail_def after_mail_failure_def one_retry_def push_only_def
  after_push_def
  first_in_queue_def second_in_queue_def

lemmas sender_defs =
  sendTelegramNotification_def sendEmailNotification_def sendPushNotification_def
  sendInAppNotification_def recordSent_def

lemmas run_defs =
  create_def sendNotification_def promises_def settle_def sender_defs markAsSent_def
  markAsFailed_def js_increment_def allChannels_def sentChannels_def channel_keys_def
  delivery_default_def
  Let_def findPending_def is_due_def sorts_before_def

subsection \<open>Fields after each method\<close>

lemma all_channel: "(\<forall>c. P c) \<longleftrightarrow> P Telegram \<and> P Email \<and> P Push \<and> P InApp"
  by (metis channel.exhaust)

lemma sent_are_enabled_iff:
  "sent_are_enabled n \<longleftrightarrow> (\<forall>c. sent (deliveryStatus n c) \<longrightarrow> channels n c)"
  by (simp add: sent_are_enabled_def channel_keys_def all_channel)

lemma enabled_are_sent_iff:
  "enabled_are_sent n \<longleftrightarrow> (\<forall>c. channels n c \<longrightarrow> sent (deliveryStatus n c))"
  by (simp add: enabled_are_sent_def channel_keys_def all_channel)

lemma markAsSent_fields:
  "channels (markAsSent c t n) = channels n"
  "retryCount (markAsSent c t n) = retryCount n"
  "maxRetries (markAsSent c t n) = maxRetries n"
  "nid (markAsSent c t n) = nid n"
  "sent (deliveryStatus (markAsSent c t n) d) = (d = c \<or> sent (deliveryStatus n d))"
  by (auto simp: markAsSent_def Let_def)

lemma js_increment_ge: "x \<le> js_increment x"
  by (simp add: js_increment_def)

lemma js_increment_at_limit:
  "js_increment (2 ^ 53) = 2 ^ 53" "js_increment (2 ^ 53 + 2) = 2 ^ 53 + 4"
  "js_increment (- (2 ^ 53)) = - (2 ^ 53) + 1"
  by (simp_all add: js_increment_def)

lemma js_increment_safe: "- (2 ^ 53) \<le> x \<Longrightarrow> x < 2 ^ 53 \<Longrightarrow> js_increment x = x + 1"
  by (simp add: js_increment_def)

lemma markAsFailed_fields:
  "channels (markAsFailed c e n) = channels n"
  "retryCount (markAsFailed c e n) = js_increment (retryCount n)"
  "maxRetries (markAsFailed c e n) = maxRetries n"
  "nid (markAsFailed c e n) = nid n"
  "sent (deliveryStatus (markAsFailed c e n) d) = sent (deliveryStatus n d)"
  "status (markAsFailed c e n) =
     (if maxRetries n \<le> js_increment (retryCount n) then Failed else Pending)"
  by (auto simp: markAsFailed_def Let_def)

lemma markAsSent_status:
  "status (markAsSent c t n) =
     (if length (allChannels (markAsSent c t n)) = length (sentChannels (markAsSent c t n))
      then Sent else status n)"
  by (auto simp: markAsSent_def Let_def allChannels_def sentChannels_def)

subsection \<open>Counting channels\<close>

lemma counts_equal:
  assumes "sent_are_enabled n" "enabled_are_sent n"
  shows "length (allChannels n) = length (sentChannels n)"
proof -
  have "channels n c = sent (deliveryStatus n c)" for c
    using assms by (auto simp: sent_are_enabled_iff enabled_are_sent_iff)
  then have "channels n = (\<lambda>c. sent (deliveryStatus n c))" by auto
  then show ?thesis by (simp add: allChannels_def sentChannels_def)
qed

lemma filter_length_le:
  "(\<forall>x\<in>set xs. P x \<longrightarrow> Q x) \<Longrightarrow> length (filter P xs) \<le> length (filter Q xs)"
  by (induction xs) auto

lemma filter_length_eq_subset:
  "(\<forall>x\<in>set xs. P x \<longrightarrow> Q x) \<Longrightarrow> length (filter Q xs) = length (filter P xs) \<Longrightarrow>
   x \<in> set xs \<Longrightarrow> Q x \<Longrightarrow> P x"
proof (induction xs)
  case Nil
  then show ?case by simp
next
  case (Cons a xs)
  have "length (filter P xs) \<le> length (filter Q xs)"
    using Cons.prems(1) by (simp add: filter_length_le)
  with Cons show ?case by (auto split: if_splits)
qed

lemma counts_equal_conv:
  assumes "sent_are_enabled n" "length (allChannels n) = length (sentChannels n)"
  shows "enabled_are_sent n"
proof -
  have sub: "\<forall>x\<in>set channel_keys. sent (deliveryStatus n x) \<longrightarrow> channels n x"
    using assms(1) by (simp add: sent_are_enabled_iff)
  have len: "length (filter (channels n) channel_keys) =
      length (filter (\<lambda>c. sent (deliveryStatus n c)) channel_keys)"
    using assms(2) by (simp add: allChannels_def sentChannels_def)
  have "channels n c \<Longrightarrow> sent (deliveryStatus n c)" for c
    using filter_length_eq_subset [OF sub len, of c] by (cases c) (auto simp: channel_keys_def)
  then show ?thesis by (simp add: enabled_are_sent_iff)
qed

lemma filter_length_perm:
  assumes "distinct xs" "distinct ys" "set xs = set ys"
  shows "length (filter P xs) = length (filter P ys)"
proof -
  have "length (filter P xs) = card (set (filter P xs))"
    using assms(1) distinct_card [of "filter P xs"] by simp
  also have "\<dots> = card (set (filter P ys))" using assms(3) by simp
  also have "\<dots> = length (filter P ys)"
    using assms(2) distinct_card [of "filter P ys"] by simp
  finally show ?thesis .
qed

subsection \<open>The steps keep the delivery invariant\<close>

lemma step_sent_are_enabled: "step n n' \<Longrightarrow> sent_are_enabled n \<Longrightarrow> sent_are_enabled n'"
  by (induction rule: step.induct)
     (auto simp: sent_are_enabled_iff markAsSent_fields markAsFailed_fields retry_def markAsRead_def)

lemma step_sent_status:
  assumes "step n n'" "sent_are_enabled n" "status n = Sent \<longrightarrow> enabled_are_sent n"
  shows "status n' = Sent \<longrightarrow> enabled_are_sent n'"
  using assms
proof (induction rule: step.induct)
  case (channel_sent n c now)
  have se: "sent_are_enabled (markAsSent c now n)"
    using channel_sent step_sent_are_enabled step.channel_sent by blast
  show ?case
  proof (cases "length (allChannels (markAsSent c now n)) = length (sentChannels (markAsSent c now n))")
    case True
    then show ?thesis using counts_equal_conv [OF se] by simp
  next
    case False
    then have "status (markAsSent c now n) = status n" by (simp add: markAsSent_status)
    then show ?thesis using channel_sent
      by (auto simp: enabled_are_sent_iff markAsSent_fields)
  qed
qed (auto simp: markAsFailed_fields retry_def markAsRead_def enabled_are_sent_iff)

lemma create_sent_are_enabled: "sent_are_enabled (create i chs p at mx)"
  by (simp add: create_def sent_are_enabled_iff delivery_default_def)

lemma create_status: "status (create i chs p at mx) = Pending"
  by (simp add: create_def)

lemma steps_invariant:
  "step\<^sup>*\<^sup>* n0 n \<Longrightarrow> sent_are_enabled n0 \<Longrightarrow> (status n0 = Sent \<longrightarrow> enabled_are_sent n0) \<Longrightarrow>
   sent_are_enabled n \<and> (status n = Sent \<longrightarrow> enabled_are_sent n)"
  by (induction rule: rtranclp_induct) (auto dest: step_sent_are_enabled step_sent_status)

lemma step_retryCount: "step n n' \<Longrightarrow> retryCount n \<le> retryCount n'"
  by (induction rule: step.induct)
     (auto simp: markAsSent_fields markAsFailed_fields js_increment_ge retry_def markAsRead_def)

lemma steps_retryCount: "step\<^sup>*\<^sup>* n n' \<Longrightarrow> retryCount n \<le> retryCount n'"
  by (induction rule: rtranclp_induct) (auto dest: step_retryCount)

subsection \<open>What one sender does\<close>

lemma sender_retryCount:
  "retryCount (fst (sender c w n)) =
     (if channel_fails w c then js_increment (retryCount n) else retryCount n)"
  by (cases c)
     (auto simp: sender_defs save_fails_def markAsSent_fields markAsFailed_fields Let_def
        split: option.splits lookup.splits)

text \<open>
  What a sender returns does not depend on the document: it returns \<open>true\<close> unless it
  reaches its \<open>catch\<close> branch or is the email sender cut short.
\<close>

lemma sender_returns:
  "snd (sender c w n) \<longleftrightarrow> \<not> channel_fails w c \<and> \<not> (c = Email \<and> cut_short w)"
  by (cases c)
     (auto simp: sender_defs save_fails_def cut_short_def Let_def
        split: option.splits lookup.splits)

lemma sender_channels: "channels (fst (sender c w n)) = channels n"
  by (cases c)
     (auto simp: sender_defs markAsSent_fields markAsFailed_fields Let_def
        split: option.splits lookup.splits)

lemma sender_nid: "nid (fst (sender c w n)) = nid n"
  by (cases c)
     (auto simp: sender_defs markAsSent_fields markAsFailed_fields Let_def
        split: option.splits lookup.splits)

lemma sender_sent:
  "sent (deliveryStatus (fst (sender c w n)) d) \<Longrightarrow> d = c \<or> sent (deliveryStatus n d)"
  by (cases c)
     (auto simp: sender_defs markAsSent_fields markAsFailed_fields Let_def
        split: option.splits lookup.splits if_splits)

lemma sender_sent_mono:
  "sent (deliveryStatus n d) \<Longrightarrow> sent (deliveryStatus (fst (sender c w n)) d)"
  by (cases c)
     (auto simp: sender_defs markAsSent_fields markAsFailed_fields Let_def
        split: option.splits lookup.splits if_splits)

lemma sender_sent_are_enabled:
  "channels n c \<Longrightarrow> sent_are_enabled n \<Longrightarrow> sent_are_enabled (fst (sender c w n))"
  using sender_sent [of c w n] by (auto simp: sent_are_enabled_iff sender_channels)

lemma markAsSent_not_sending:
  "status n \<noteq> Sending \<Longrightarrow> status (markAsSent c t n) \<noteq> Sending"
  by (simp add: markAsSent_status)

lemma sender_keeps_not_sending:
  "status n \<noteq> Sending \<Longrightarrow> status (fst (sender c w n)) \<noteq> Sending"
  by (cases c)
     (auto simp: sender_defs markAsSent_not_sending markAsFailed_fields Let_def
        split: option.splits lookup.splits if_splits)

text \<open>
  A sender that is not cut short and leaves the status at sending has only marked its
  channel, and \<open>markAsSent\<close> found the two counts different.
\<close>

lemma sender_still_sending:
  assumes "status (fst (sender c w n)) = Sending" "\<not> (c = Email \<and> cut_short w)"
  shows "fst (sender c w n) = markAsSent c (clock w) n"
  using assms
  by (cases c)
     (auto simp: sender_defs cut_short_def markAsFailed_fields Let_def
        split: option.splits lookup.splits if_splits)

lemma markAsSent_still_sending:
  assumes "status (markAsSent c t n) = Sending" "sent_are_enabled (markAsSent c t n)"
  shows "\<not> enabled_are_sent (markAsSent c t n)"
proof
  assume "enabled_are_sent (markAsSent c t n)"
  then have "length (allChannels (markAsSent c t n)) = length (sentChannels (markAsSent c t n))"
    using assms(2) counts_equal by blast
  then have "status (markAsSent c t n) = Sent" by (simp add: markAsSent_status)
  with assms(1) show False by simp
qed

lemma recordSent_steps: "channels n c \<Longrightarrow> step\<^sup>*\<^sup>* n (fst (recordSent c w n))"
proof -
  assume en: "channels n c"
  have s1: "step n (markAsSent c (clock w) n)" using en by (rule step.channel_sent)
  have "channels (markAsSent c (clock w) n) c" using en by (simp add: markAsSent_fields)
  then have s2: "step (markAsSent c (clock w) n) (markAsFailed c m (markAsSent c (clock w) n))" for m
    by (rule step.channel_failed)
  show ?thesis
  proof (cases "sentSave w c")
    case None
    then show ?thesis using s1 by (simp add: recordSent_def Let_def)
  next
    case (Some m)
    have "step\<^sup>*\<^sup>* n (markAsFailed c m (markAsSent c (clock w) n))"
      using s1 s2 [of m] by (meson r_into_rtranclp rtranclp_trans)
    with Some show ?thesis by (simp add: recordSent_def Let_def)
  qed
qed

lemma sender_steps: "channels n c \<Longrightarrow> step\<^sup>*\<^sup>* n (fst (sender c w n))"
  by (cases c)
     (auto simp: sendTelegramNotification_def sendEmailNotification_def sendPushNotification_def
        sendInAppNotification_def recordSent_steps
        intro: step.channel_failed split: option.splits lookup.splits)

subsection \<open>What one round does\<close>

lemma set_promises: "c \<in> set (promises n) \<longleftrightarrow> channels n c"
  by (cases c) (simp_all add: promises_def)

lemma distinct_promises: "distinct (promises n)"
  by (simp add: promises_def)

lemma promises_eq_filter: "promises n = filter (channels n) channel_keys"
  by (simp add: promises_def channel_keys_def)

lemma promises_status: "promises (n\<lparr>status := s\<rparr>) = promises n"
  by (simp add: promises_def)

lemma set_settle: "set (settle order ps) = set ps"
  by (auto simp: settle_def)

lemma distinct_settle: "distinct ps \<Longrightarrow> distinct (settle order ps)"
  by (auto simp: settle_def)

lemma run_senders_steps:
  "\<forall>c\<in>set cs. channels n c \<Longrightarrow> step\<^sup>*\<^sup>* n (run_senders w cs n)"
proof (induction cs arbitrary: n)
  case Nil
  then show ?case by simp
next
  case (Cons c cs)
  have a: "step\<^sup>*\<^sup>* n (fst (sender c w n))" using Cons.prems by (simp add: sender_steps)
  have "\<forall>d\<in>set cs. channels (fst (sender c w n)) d"
    using Cons.prems by (simp add: sender_channels)
  then have "step\<^sup>*\<^sup>* (fst (sender c w n)) (run_senders w cs (fst (sender c w n)))"
    by (rule Cons.IH)
  with a show ?case by simp
qed

text \<open>A round is a sequence of steps: what holds along the steps holds after a round.\<close>

lemma round_steps: "step\<^sup>*\<^sup>* n (doc (sendNotification w n))"
proof (cases "claimSave w")
  case None
  let ?n1 = "n\<lparr>status := Sending\<rparr>"
  have a: "step n ?n1" by (rule step.claimed)
  have "\<forall>c\<in>set (settle (settleOrder w) (promises ?n1)). channels ?n1 c"
    by (simp add: set_settle set_promises)
  then have "step\<^sup>*\<^sup>* ?n1 (run_senders w (settle (settleOrder w) (promises ?n1)) ?n1)"
    by (rule run_senders_steps)
  with a None show ?thesis by (simp add: sendNotification_def Let_def)
next
  case (Some m)
  have a: "step n (n\<lparr>status := Sending\<rparr>)" by (rule step.claimed)
  have b: "step (n\<lparr>status := Sending\<rparr>) (n\<lparr>status := Sending\<rparr>\<lparr>status := Failed\<rparr>)"
    by (rule step.claim_failed)
  have "step\<^sup>*\<^sup>* n (n\<lparr>status := Sending\<rparr>\<lparr>status := Failed\<rparr>)" using a b by auto
  with Some show ?thesis by (auto simp: sendNotification_def Let_def split: option.splits)
qed

lemma run_senders_retryCount:
  "- (2 ^ 53) \<le> retryCount n \<Longrightarrow> retryCount n + int (length cs) \<le> 2 ^ 53 \<Longrightarrow>
   retryCount (run_senders w cs n) = retryCount n + int (length (filter (channel_fails w) cs))"
proof (induction cs arbitrary: n)
  case Nil
  then show ?case by simp
next
  case (Cons c cs)
  let ?n' = "fst (sender c w n)"
  have lt: "retryCount n < 2 ^ 53" using Cons.prems(2) by simp
  have eq: "retryCount ?n' = retryCount n + (if channel_fails w c then 1 else 0)"
    using Cons.prems(1) lt by (simp add: sender_retryCount js_increment_safe)
  have lo: "- (2 ^ 53) \<le> retryCount ?n'" using Cons.prems(1) eq by simp
  have hi: "retryCount ?n' + int (length cs) \<le> 2 ^ 53" using Cons.prems(2) eq by simp
  have "retryCount (run_senders w cs ?n') =
      retryCount ?n' + int (length (filter (channel_fails w) cs))"
    using lo hi by (rule Cons.IH)
  with eq show ?case by simp
qed

lemma length_promises: "length (promises n) \<le> 4"
  by (simp add: promises_def)

lemma length_settle: "distinct ps \<Longrightarrow> length (settle order ps) = length ps"
proof -
  assume d: "distinct ps"
  have "length (settle order ps) = card (set (settle order ps))"
    using distinct_settle [OF d, of order] distinct_card [of "settle order ps"] by simp
  also have "\<dots> = card (set ps)" by (simp add: set_settle)
  also have "\<dots> = length ps" using d distinct_card [of ps] by simp
  finally show ?thesis .
qed

lemma run_senders_nid: "nid (run_senders w cs n) = nid n"
  by (induction cs arbitrary: n) (simp_all add: sender_nid)

lemma round_nid: "nid (doc (sendNotification w n)) = nid n"
  by (simp add: sendNotification_def Let_def run_senders_nid split: option.splits)

lemma round_returned:
  "returned (sendNotification w n) =
     (case claimSave w of
        None \<Rightarrow> Inr True
      | Some e \<Rightarrow> (case failedSave w of None \<Rightarrow> Inr False | Some e2 \<Rightarrow> Inl e2))"
  by (simp add: sendNotification_def Let_def split: option.splits)

lemma round_retryCount:
  assumes "- (2 ^ 53) \<le> retryCount n" and "retryCount n + 4 \<le> 2 ^ 53"
  shows "retryCount (doc (sendNotification w n)) =
     retryCount n + int (length (filter (channel_fails w) (invoked (sendNotification w n))))"
proof (cases "claimSave w")
  case None
  let ?n1 = "n\<lparr>status := Sending\<rparr>"
  let ?cs = "settle (settleOrder w) (promises ?n1)"
  have len: "length ?cs \<le> 4"
    using length_promises [of ?n1] by (simp add: length_settle distinct_promises)
  have lo: "- (2 ^ 53) \<le> retryCount ?n1" using assms(1) by simp
  have hi: "retryCount ?n1 + int (length ?cs) \<le> 2 ^ 53" using assms(2) len by simp
  have run: "retryCount (run_senders w ?cs ?n1) =
      retryCount ?n1 + int (length (filter (channel_fails w) ?cs))"
    using lo hi by (rule run_senders_retryCount)
  have "length (filter (channel_fails w) ?cs) = length (filter (channel_fails w) (promises ?n1))"
    by (rule filter_length_perm) (simp_all add: distinct_settle distinct_promises set_settle)
  with None run show ?thesis by (simp add: sendNotification_def Let_def)
next
  case (Some m)
  then show ?thesis by (auto simp: sendNotification_def Let_def split: option.splits)
qed

text \<open>
  Unless the email sender is called and cut short, the senders of a round that do not
  return \<open>true\<close> are the ones that reach their \<open>catch\<close> branch.
\<close>

lemma round_send_failed:
  assumes "\<not> (channels n Email \<and> cut_short w)"
  shows "filter (send_failed w n) (invoked (sendNotification w n)) =
     filter (channel_fails w) (invoked (sendNotification w n))"
proof (rule filter_cong [OF refl])
  fix c
  assume "c \<in> set (invoked (sendNotification w n))"
  then have "channels n c"
    by (cases "claimSave w")
       (auto simp: sendNotification_def Let_def set_promises promises_status split: option.splits)
  with assms have "\<not> (c = Email \<and> cut_short w)" by auto
  then show "send_failed w n c = channel_fails w c"
    by (simp add: send_failed_def sender_returns)
qed

lemma run_senders_keeps_not_sending:
  "status n \<noteq> Sending \<Longrightarrow> status (run_senders w cs n) \<noteq> Sending"
  by (induction cs arbitrary: n) (simp_all add: sender_keeps_not_sending)

lemma run_senders_not_sending:
  assumes "sent_are_enabled n"
    and "\<forall>c\<in>set cs. channels n c"
    and "\<forall>d. channels n d \<longrightarrow> sent (deliveryStatus n d) \<or> d \<in> set cs"
    and "\<not> (Email \<in> set cs \<and> cut_short w)"
    and "cs \<noteq> []"
  shows "status (run_senders w cs n) \<noteq> Sending"
  using assms
proof (induction cs arbitrary: n)
  case Nil
  then show ?case by simp
next
  case (Cons c cs)
  let ?n' = "fst (sender c w n)"
  have en: "channels n c" using Cons.prems(2) by simp
  have se: "sent_are_enabled ?n'" using en Cons.prems(1) by (rule sender_sent_are_enabled)
  have ch: "\<forall>d\<in>set cs. channels ?n' d" using Cons.prems(2) by (simp add: sender_channels)
  have nc: "\<not> (Email \<in> set cs \<and> cut_short w)" using Cons.prems(4) by auto
  have ncs: "\<not> (c = Email \<and> cut_short w)" using Cons.prems(4) by auto
  show ?case
  proof (cases "status ?n' = Sending")
    case False
    then show ?thesis by (simp add: run_senders_keeps_not_sending)
  next
    case True
    have eq: "?n' = markAsSent c (clock w) n" using True ncs by (rule sender_still_sending)
    have marked: "sent (deliveryStatus ?n' c)" by (simp add: eq markAsSent_fields)
    have cov: "\<forall>d. channels ?n' d \<longrightarrow> sent (deliveryStatus ?n' d) \<or> d \<in> set cs"
      using Cons.prems(3) marked sender_sent_mono [of n _ c w] by (auto simp: sender_channels)
    have open_ch: "\<not> enabled_are_sent ?n'"
      using True se markAsSent_still_sending [of c "clock w" n] by (simp add: eq)
    have "cs \<noteq> []"
    proof
      assume "cs = []"
      with cov have "enabled_are_sent ?n'" by (simp add: enabled_are_sent_iff)
      with open_ch show False by simp
    qed
    then have "status (run_senders w cs ?n') \<noteq> Sending"
      using Cons.IH [OF se ch cov nc] by simp
    then show ?thesis by simp
  qed
qed

lemma round_not_sending:
  assumes "sent_are_enabled n" "promises n \<noteq> []" "\<not> (channels n Email \<and> cut_short w)"
  shows "status (doc (sendNotification w n)) \<noteq> Sending"
proof (cases "claimSave w")
  case (Some m)
  then show ?thesis by (auto simp: sendNotification_def Let_def split: option.splits)
next
  case None
  let ?n1 = "n\<lparr>status := Sending\<rparr>"
  let ?cs = "settle (settleOrder w) (promises ?n1)"
  have a1: "sent_are_enabled ?n1" using assms(1) by (simp add: sent_are_enabled_iff)
  have a2: "\<forall>c\<in>set ?cs. channels ?n1 c" by (simp add: set_settle set_promises)
  have a3: "\<forall>d. channels ?n1 d \<longrightarrow> sent (deliveryStatus ?n1 d) \<or> d \<in> set ?cs"
    by (simp add: set_settle set_promises)
  have a4: "\<not> (Email \<in> set ?cs \<and> cut_short w)"
    using assms(3) by (simp add: set_settle set_promises)
  have "set ?cs \<noteq> {}" using assms(2) by (simp add: set_settle promises_status)
  then have a5: "?cs \<noteq> []" by auto
  have "status (run_senders w ?cs ?n1) \<noteq> Sending"
    using a1 a2 a3 a4 a5 by (rule run_senders_not_sending)
  with None show ?thesis by (simp add: sendNotification_def Let_def)
qed

subsection \<open>The queue and the sweep\<close>

lemma set_insert_sorted: "set (insert_sorted a xs) = insert a (set xs)"
  by (induction xs) auto

lemma set_sort_query: "set (sort_query xs) = set xs"
  by (induction xs) (simp_all add: set_insert_sorted)

lemma length_insert_sorted: "length (insert_sorted a xs) = Suc (length xs)"
  by (induction xs) auto

lemma length_sort_query: "length (sort_query xs) = length xs"
  by (induction xs) (simp_all add: length_insert_sorted)

lemma sorts_before_total: "sorts_before a b \<or> sorts_before b a"
  unfolding sorts_before_def by (metis linorder_less_linear nat_le_linear)

lemma sorts_before_trans: "sorts_before a b \<Longrightarrow> sorts_before b c \<Longrightarrow> sorts_before a c"
  unfolding sorts_before_def by (metis order.strict_trans order_trans)

lemma sorted_insert_sorted:
  "sorted_wrt sorts_before xs \<Longrightarrow> sorted_wrt sorts_before (insert_sorted a xs)"
  by (induction xs)
     (auto simp: set_insert_sorted dest: sorts_before_trans intro: sorts_before_total [THEN disjE])

lemma sorted_sort_query: "sorted_wrt sorts_before (sort_query xs)"
  by (induction xs) (simp_all add: sorted_insert_sorted)

text \<open>
  The query part of \<open>findPending\<close>: it returns the due notifications of the store, all
  of them and each as often as the store holds it, in an order that the sort
  specification allows.
\<close>

lemma findPending_exact: "set (findPending now store) = {n \<in> set store. is_due now n}"
  by (simp add: findPending_def set_sort_query)

lemma findPending_length: "length (findPending now store) = length (filter (is_due now) store)"
  by (simp add: findPending_def length_sort_query)

lemma findPending_sorted: "sorted_wrt sorts_before (findPending now store)"
  by (simp add: findPending_def sorted_sort_query)

lemma dispatch_all_quiet:
  "never_throws worldOf ns \<Longrightarrow> handed (dispatch_all worldOf ns) = map nid ns"
  by (induction ns)
     (auto simp: never_throws_def handed_def round_nid round_returned throws_def Let_def
        split: option.splits)

lemma dispatch_all_stops:
  "never_throws worldOf pre \<Longrightarrow> throws (worldOf (nid n)) \<Longrightarrow>
   handed (dispatch_all worldOf (pre @ n # post)) = map nid pre @ [nid n]"
  by (induction pre)
     (auto simp: never_throws_def handed_def round_nid round_returned throws_def Let_def
        split: option.splits)

section \<open>The claims\<close>

subsection \<open>C1: which senders a round calls\<close>

text \<open>
  C1, as the code has it. A round whose first save succeeds calls the sender of every
  enabled channel, once and in schema order, and no other; a round whose first save
  fails calls none. The delivery status plays no part: a round on a document with any
  other \<open>deliveryStatus\<close> calls the same senders, so a channel that is already marked
  sent is attempted again.
\<close>

theorem round_invokes_enabled_channels:
  "invoked (sendNotification w n) =
     (case claimSave w of None \<Rightarrow> filter (channels n) channel_keys | Some e \<Rightarrow> []) \<and>
   invoked (sendNotification w (n\<lparr>deliveryStatus := ds\<rparr>)) = invoked (sendNotification w n)"
  by (simp add: sendNotification_def promises_def channel_keys_def Let_def split: option.splits)

text \<open>
  C1 as stated fails. Round 1 delivers by telegram and fails by email; the record is
  pending again and the next sweep finds it; round 2 calls the telegram sender although
  \<open>deliveryStatus.telegram.sent\<close> is already true.
\<close>

theorem sent_channel_attempted_again:
  "sent (deliveryStatus after_mail_failure Telegram) \<and>
   findPending 2 [after_mail_failure] = [after_mail_failure] \<and>
   invoked (sendNotification (healthy 2) after_mail_failure) = [Telegram, Email]"
  by (simp add: scenario_defs run_defs)

subsection \<open>C2: the status sent and the channels\<close>

text \<open>
  C2, as the code has it. In every state that the steps reach from a newly created
  notification, a status of sent implies that every enabled channel is marked sent.
\<close>

theorem sent_implies_enabled_are_sent:
  assumes "step\<^sup>*\<^sup>* (create i chs p at mx) n" and "status n = Sent"
  shows "enabled_are_sent n"
  using steps_invariant [OF assms(1) create_sent_are_enabled] assms(2)
  by (simp add: create_status)

text \<open>The theorem at a run: one round in a healthy world, which ends as sent.\<close>

theorem sent_implies_enabled_are_sent_witness:
  "step\<^sup>*\<^sup>* (create 8 (only [Push]) Normal 0 3) after_push \<and> status after_push = Sent \<and>
   enabled_are_sent after_push"
proof -
  have r: "step\<^sup>*\<^sup>* (create 8 (only [Push]) Normal 0 3) after_push"
    unfolding after_push_def push_only_def by (rule round_steps)
  have s: "status after_push = Sent" by (simp add: scenario_defs run_defs)
  show ?thesis using r s sent_implies_enabled_are_sent [OF r s] by simp
qed

text \<open>
  C2 as stated fails in the other direction. After round 1 (telegram delivered, email
  failed) round 2 attempts both channels again; the email sender settles first and
  \<open>markAsSent\<close> sets the status to sent, then the telegram sender fails and
  \<open>markAsFailed\<close> sets it back to pending: every enabled channel is marked sent and the
  status is not sent.
\<close>

theorem all_sent_but_pending:
  "findPending 2 [after_mail_failure] = [after_mail_failure] \<and>
   enabled_are_sent (doc (sendNotification (bot_down_mail_first 2) after_mail_failure)) \<and>
   status (doc (sendNotification (bot_down_mail_first 2) after_mail_failure)) = Pending"
  by (simp add: scenario_defs run_defs enabled_are_sent_def)

subsection \<open>C3: the retry counter along the steps\<close>

text \<open>
  C3, as the code has it. The retry counter never decreases: not along any sequence of
  steps, and so not over a dispatch round. Nothing bounds it by \<open>maxRetries\<close>.
\<close>

theorem retryCount_never_decreases:
  "(step\<^sup>*\<^sup>* n n' \<longrightarrow> retryCount n \<le> retryCount n') \<and>
   retryCount n \<le> retryCount (doc (sendNotification w n))"
  using steps_retryCount round_steps by blast

theorem retryCount_never_decreases_witness:
  "step\<^sup>*\<^sup>* chat_and_mail after_mail_failure \<and>
   retryCount chat_and_mail \<le> retryCount after_mail_failure \<and>
   retryCount after_mail_failure = 1"
proof -
  have r: "step\<^sup>*\<^sup>* chat_and_mail after_mail_failure"
    unfolding after_mail_failure_def by (rule round_steps)
  have "retryCount chat_and_mail \<le> retryCount after_mail_failure"
    using retryCount_never_decreases [of chat_and_mail after_mail_failure] r by blast
  moreover have "retryCount after_mail_failure = 1" by (simp add: scenario_defs run_defs)
  ultimately show ?thesis using r by simp
qed

text \<open>
  C3 as stated fails: with a budget of one retry, one round in which both channels fail
  leaves the counter at two.
\<close>

theorem retryCount_exceeds_maxRetries:
  "retryCount (doc (sendNotification (all_down 1) one_retry)) = 2 \<and>
   maxRetries (doc (sendNotification (all_down 1) one_retry)) = 1 \<and>
   maxRetries (doc (sendNotification (all_down 1) one_retry)) <
     retryCount (doc (sendNotification (all_down 1) one_retry))"
  by (simp add: scenario_defs run_defs)

subsection \<open>C4: the retry counter over one round\<close>

text \<open>
  C4, as the code has it. While the retry counter is a safe integer (it stays below
  \<open>2 ^ 53\<close>, where the addition of doubles is exact), \<open>markAsFailed\<close> adds one to
  it and then sets the status to failed if the counter has reached \<open>maxRetries\<close> and to
  pending if not. Every sender that does not return \<open>true\<close> calls it once, the email
  sender that is cut short apart; so a round in which the email sender is not called or
  not cut short adds one for each channel whose sender did not return \<open>true\<close>.
\<close>

theorem retryCount_counts_failed_channels:
  assumes "- (2 ^ 53) \<le> retryCount n" and "retryCount n + 4 \<le> 2 ^ 53"
    and "\<not> (channels n Email \<and> cut_short w)"
  shows "retryCount (markAsFailed c e n) = retryCount n + 1 \<and>
     status (markAsFailed c e n) = (if maxRetries n \<le> retryCount n + 1 then Failed else Pending) \<and>
     retryCount (doc (sendNotification w n)) =
       retryCount n + int (length (filter (send_failed w n) (invoked (sendNotification w n))))"
proof -
  have lt: "retryCount n < 2 ^ 53" using assms(2) by simp
  have inc: "js_increment (retryCount n) = retryCount n + 1"
    using assms(1) lt by (rule js_increment_safe)
  have "retryCount (doc (sendNotification w n)) =
      retryCount n + int (length (filter (channel_fails w) (invoked (sendNotification w n))))"
    using assms(1,2) by (rule round_retryCount)
  then have "retryCount (doc (sendNotification w n)) =
      retryCount n + int (length (filter (send_failed w n) (invoked (sendNotification w n))))"
    by (simp add: round_send_failed [OF assms(3)])
  with inc show ?thesis by (simp add: markAsFailed_fields)
qed

text \<open>
  The theorem at a round in which both channels of a new notification fail: the call of
  \<open>markAsFailed\<close> leaves the counter at one and the status at pending, the round leaves
  the counter at two.
\<close>

theorem retryCount_counts_failed_channels_witness:
  "- (2 ^ 53) \<le> retryCount chat_and_mail \<and> retryCount chat_and_mail + 4 \<le> 2 ^ 53 \<and>
   \<not> (channels chat_and_mail Email \<and> cut_short (all_down 1)) \<and>
   retryCount (markAsFailed Telegram ''timeout'' chat_and_mail) = 1 \<and>
   status (markAsFailed Telegram ''timeout'' chat_and_mail) = Pending \<and>
   filter (send_failed (all_down 1) chat_and_mail)
     (invoked (sendNotification (all_down 1) chat_and_mail)) = [Telegram, Email] \<and>
   retryCount (doc (sendNotification (all_down 1) chat_and_mail)) = 2"
proof -
  have a: "- (2 ^ 53) \<le> retryCount chat_and_mail" by (simp add: scenario_defs create_def)
  have b: "retryCount chat_and_mail + 4 \<le> 2 ^ 53" by (simp add: scenario_defs create_def)
  have c: "\<not> (channels chat_and_mail Email \<and> cut_short (all_down 1))"
    by (simp add: scenario_defs cut_short_def)
  have r: "retryCount chat_and_mail = 0" "maxRetries chat_and_mail = 3"
    by (simp_all add: scenario_defs create_def)
  have f: "filter (send_failed (all_down 1) chat_and_mail)
      (invoked (sendNotification (all_down 1) chat_and_mail)) = [Telegram, Email]"
    by (simp add: scenario_defs run_defs send_failed_def)
  show ?thesis
    using a b c f retryCount_counts_failed_channels [OF a b c, of Telegram "''timeout''"]
    by (simp add: r)
qed

text \<open>C4 as stated fails: one round in which two channels fail adds two.\<close>

theorem two_failures_add_two:
  "retryCount chat_and_mail = 0 \<and>
   invoked (sendNotification (all_down 1) chat_and_mail) = [Telegram, Email] \<and>
   retryCount (doc (sendNotification (all_down 1) chat_and_mail)) = 2"
  by (simp add: scenario_defs run_defs)

subsection \<open>C5: the order of the queue\<close>

text \<open>
  C5 at a store of two due notifications, the first of priority high and the second of
  priority low: \<open>findPending\<close> returns the low one in front of the high one. The sort
  compares the stored strings, and \<open>''high''\<close> is the least of the four: of one
  notification of each priority, all due at the same time, the queue is urgent, normal,
  low, high.
\<close>

theorem findPending_low_before_high:
  "map priority
     (findPending 10 [create 1 (only [Telegram]) High 5 3, create 2 (only [Telegram]) Low 5 3])
   = [Low, High] \<and>
   map priority
     (findPending 10
        [create 1 (only [Telegram]) Low 5 3, create 2 (only [Telegram]) High 5 3,
         create 3 (only [Telegram]) Urgent 5 3, create 4 (only [Telegram]) Normal 5 3])
   = [Urgent, Normal, Low, High]"
  by (simp add: scenario_defs run_defs)

subsection \<open>C6: the start of a round\<close>

text \<open>
  C6, as the code has it. The dispatcher assigns the status sending without reading the
  status: a round on a document does what it does on the same document in any other
  status.
\<close>

theorem round_ignores_prior_status:
  "sendNotification w (n\<lparr>status := s\<rparr>) = sendNotification w n"
  by (simp add: sendNotification_def promises_def Let_def)

text \<open>
  C6 as stated fails: a record that a round has left as sent is dispatched again when it
  is handed to the dispatcher; the push sender is called and the record is mutated.
\<close>

theorem terminal_record_dispatched_again:
  "status after_push = Sent \<and>
   invoked (sendNotification (healthy 2) after_push) = [Push] \<and>
   notifSentAt after_push = Some 1 \<and>
   notifSentAt (doc (sendNotification (healthy 2) after_push)) = Some 2"
  by (simp add: scenario_defs run_defs)

subsection \<open>C7: the status after a round\<close>

text \<open>
  C7, as the code has it. A round on a notification with at least one enabled channel,
  whose channels marked sent are enabled ones, does not leave the status at sending,
  unless the email sender is cut short.
\<close>

theorem round_ends_not_sending:
  assumes "sent_are_enabled n" and "promises n \<noteq> []"
    and "\<not> (channels n Email \<and> cut_short w)"
  shows "status (doc (sendNotification w n)) \<noteq> Sending"
  using assms by (rule round_not_sending)

theorem round_ends_not_sending_witness:
  "sent_are_enabled chat_and_mail \<and> promises chat_and_mail \<noteq> [] \<and>
   \<not> (channels chat_and_mail Email \<and> cut_short (mail_down 1)) \<and>
   status (doc (sendNotification (mail_down 1) chat_and_mail)) \<noteq> Sending"
proof -
  have a: "sent_are_enabled chat_and_mail"
    by (simp add: chat_and_mail_def create_sent_are_enabled)
  have b: "promises chat_and_mail \<noteq> []" by (simp add: scenario_defs run_defs)
  have c: "\<not> (channels chat_and_mail Email \<and> cut_short (mail_down 1))"
    by (simp add: scenario_defs cut_short_def)
  show ?thesis using a b c round_ends_not_sending [OF a b c] by simp
qed

text \<open>
  C7 as stated fails: a round on a notification with no enabled channel returns
  \<open>true\<close> and leaves the status at sending.
\<close>

theorem empty_round_stays_sending:
  "returned (sendNotification (healthy 1) (create 3 (only []) Normal 0 3)) = Inr True \<and>
   status (doc (sendNotification (healthy 1) (create 3 (only []) Normal 0 3))) = Sending"
  by (simp add: scenario_defs run_defs)

subsection \<open>C8: the email sender without a recipient\<close>

text \<open>
  C8 at its failing inputs. When the user is missing or has opted out, the email sender
  returns \<open>false\<close> and the document is as it was: no error is recorded, the retry
  counter does not move, the channel is not marked sent. A round on a notification with
  email as its only channel then ends with the status sending.
\<close>

theorem email_cut_short_records_nothing:
  "sendEmailNotification (w\<lparr>findById := NoUser\<rparr>) n = (n, False) \<and>
   sendEmailNotification (w\<lparr>findById := UserFound False\<rparr>) n = (n, False) \<and>
   status (doc (sendNotification (no_user 1) (create 4 (only [Email]) Normal 0 3))) = Sending"
  by (simp add: sendEmailNotification_def scenario_defs run_defs)

subsection \<open>C9: a sweep and a dispatch that throws\<close>

text \<open>
  C9, as the code has it. When no dispatch throws, the sweep hands every notification of
  the queue to the dispatcher, in order: a failure that \<open>sendNotification\<close> handles
  (a channel that fails, a first save that fails and a second that succeeds) does not end
  the sweep. When a dispatch throws, the sweep ends with that notification.
\<close>

theorem sweep_ends_at_first_throw:
  "(never_throws worldOf (findPending now store) \<longrightarrow>
      handed (processPendingNotifications None worldOf now store) =
        map nid (findPending now store)) \<and>
   (findPending now store = pre @ n # post \<and> never_throws worldOf pre \<and>
    throws (worldOf (nid n)) \<longrightarrow>
      handed (processPendingNotifications None worldOf now store) = map nid pre @ [nid n])"
  by (simp add: processPendingNotifications_def dispatch_all_quiet dispatch_all_stops)

text \<open>
  The theorem at two sweeps over the same queue of two. In the first, the first save of
  the first notification fails and the second succeeds, and the channels of the second
  notification fail: both are handed over. In the second, both saves of the first
  notification fail: the sweep ends there.
\<close>

theorem sweep_ends_at_first_throw_witness:
  "never_throws first_store_flaky (findPending 5 [second_in_queue, first_in_queue]) \<and>
   handed (processPendingNotifications None first_store_flaky 5
     [second_in_queue, first_in_queue]) = [1, 2] \<and>
   findPending 5 [second_in_queue, first_in_queue] = [] @ first_in_queue # [second_in_queue] \<and>
   never_throws first_store_down [] \<and>
   throws (first_store_down (nid first_in_queue)) \<and>
   handed (processPendingNotifications None first_store_down 5
     [second_in_queue, first_in_queue]) = [1]"
proof -
  let ?store = "[second_in_queue, first_in_queue]"
  have q: "findPending 5 ?store = [] @ first_in_queue # [second_in_queue]"
    by (simp add: scenario_defs run_defs)
  have a: "never_throws first_store_flaky (findPending 5 ?store)"
    by (simp add: q) (simp add: never_throws_def scenario_defs create_def throws_def)
  have b: "never_throws first_store_down []" by (simp add: never_throws_def)
  have c: "throws (first_store_down (nid first_in_queue))"
    by (simp add: scenario_defs create_def throws_def)
  have "handed (processPendingNotifications None first_store_flaky 5 ?store) =
      map nid (findPending 5 ?store)"
    by (rule sweep_ends_at_first_throw
          [of first_store_flaky 5 ?store, THEN conjunct1, THEN mp])
       (rule a)
  then have d: "handed (processPendingNotifications None first_store_flaky 5 ?store) = [1, 2]"
    by (simp add: q) (simp add: scenario_defs create_def)
  have "handed (processPendingNotifications None first_store_down 5 ?store) =
      map nid ([] :: notification list) @ [nid first_in_queue]"
    by (rule sweep_ends_at_first_throw
          [of first_store_down 5 ?store "[]" first_in_queue "[second_in_queue]",
           THEN conjunct2, THEN mp])
       (intro conjI q b c)
  then have e: "handed (processPendingNotifications None first_store_down 5 ?store) = [1]"
    by (simp add: scenario_defs create_def)
  show ?thesis using a d q b c e by simp
qed

text \<open>
  C9 as stated fails: the store rejects both saves of the first notification, the error
  leaves \<open>sendNotification\<close> and the loop, and the second notification of the queue is
  not handed to the dispatcher.
\<close>

theorem throw_aborts_sweep:
  "map nid (findPending 5 [second_in_queue, first_in_queue]) = [1, 2] \<and>
   handed (processPendingNotifications None first_store_down 5
     [second_in_queue, first_in_queue]) = [1]"
  by (simp add: scenario_defs run_defs processPendingNotifications_def handed_def)

subsection \<open>C10: retry\<close>

text \<open>
  C10. Whatever the status of a notification (the terminal ones included), \<open>retry\<close>
  sets the status to pending and the schedule time to the current time and changes
  nothing else that the query looks at, so the record is due at that time and at every
  later one: a sweep over a store that holds it finds it.
\<close>

theorem retry_makes_pending:
  "status (retry now n) = Pending \<and> scheduledAt (retry now n) = now \<and>
   is_due (now + later) (retry now n) \<and>
   findPending (now + later) [retry now n] = [retry now n]"
  by (simp add: retry_def is_due_def findPending_def)

end
